theory Spec2Isabelle
  imports Main "HOL-Library.Sublist" "HOL-Library.Multiset"
begin

section \<open>The ACME client of the domain server (DomainServerAcmeClient.cpp)\<close>

text \<open>
  The embedding follows \<^verbatim>\<open>domain-server/src/DomainServerAcmeClient.cpp\<close>.
  Files, the renewal timer, the published challenges and the log are fields of one
  state record that every operation takes and returns. What the program reads from its
  surroundings (the clock, the outcome of opening and writing files, the settings, and
  the functions of the Qt and acme-lw libraries whose code is not part of the file) is
  collected in a record of inputs.
\<close>

subsection \<open>Durations and time points\<close>

text \<open>
  \<^verbatim>\<open>system_clock::duration\<close> and \<^verbatim>\<open>system_clock::time_point\<close> are counts of clock
  ticks held in a signed 64-bit integer. They are modelled as \<^typ>\<open>int\<close> with the
  wrap-around of the 64-bit representation written out, and with the division of C++,
  which truncates towards zero.
\<close>

definition wrap64 :: "int \<Rightarrow> int" where
  "wrap64 x = (x + 2 ^ 63) mod 2 ^ 64 - 2 ^ 63"

text \<open>The value of a 64-bit count converted to a 32-bit \<^verbatim>\<open>int\<close>.\<close>

definition wrap32 :: "int \<Rightarrow> int" where
  "wrap32 x = (x + 2 ^ 31) mod 2 ^ 32 - 2 ^ 31"

definition tdiv :: "int \<Rightarrow> int \<Rightarrow> int" where
  "tdiv a b = sgn a * sgn b * (\<bar>a\<bar> div \<bar>b\<bar>)"

text \<open>
  \<^verbatim>\<open>return (expiryTime - system_clock::now()) * 2 / 3;\<close>
  The clock reading is the second argument.
\<close>

definition remainingTime :: "int \<Rightarrow> int \<Rightarrow> int" where
  "remainingTime expiryTime now = tdiv (wrap64 (wrap64 (expiryTime - now) * 2)) 3"

subsection \<open>Files\<close>

datatype perm = ReadOwner | WriteOwner | ExeOwner | ReadGroup | WriteGroup | ExeGroup
  | ReadOther | WriteOther | ExeOther

record qfile =
  bytes :: string
  perms :: "perm set"

type_synonym filesystem = "string \<rightharpoonup> qfile"

record settings =
  certificate_directory :: string
  certificate_filename :: string
  certificate_key_filename :: string
  account_key_path :: string
  certificate_domains :: "string list"
  directory_endpoint :: string

text \<open>\<^verbatim>\<open>acme_lw::Certificate\<close>: the chain and the key, both PEM text.\<close>

record certificate =
  fullchain :: string
  privkey :: string

text \<open>
  The inputs of a run. \<open>open_ro\<close> and \<open>open_wo\<close> say whether \<^verbatim>\<open>QFile::open\<close> succeeds
  on a path for reading (of a file that exists) and for writing; \<open>wrote p d\<close> is what
  \<^verbatim>\<open>QFile::write\<close> returns when asked to write \<open>d\<close> to \<open>p\<close>: the number of bytes
  written, or \<open>-1\<close>; \<open>set_perms_ok\<close> whether \<^verbatim>\<open>setPermissions\<close> takes effect.
  \<open>now\<close> is the clock as \<^verbatim>\<open>remainingTime\<close> reads it and \<open>now_log\<close> as
  \<^verbatim>\<open>scheduleRenewalIn\<close> reads it for its log line. \<open>ticks_per_ms\<close> is the number of
  clock ticks in a millisecond. \<open>filePath\<close> is \<^verbatim>\<open>QDir::filePath\<close>, \<open>toAce\<close> is
  \<^verbatim>\<open>QUrl::toAce\<close>, \<open>getExpiry\<close> is \<^verbatim>\<open>acme_lw::Certificate::getExpiry\<close> and
  \<open>newKeyPem\<close> is \<^verbatim>\<open>acme_lw::toPemString(acme_lw::makePrivateKey())\<close>.
\<close>

record env =
  settings :: settings
  filePath :: "string \<Rightarrow> string \<Rightarrow> string"
  now :: int
  now_log :: int
  ticks_per_ms :: int
  open_ro :: "string \<Rightarrow> bool"
  open_wo :: "string \<Rightarrow> bool"
  wrote :: "string \<Rightarrow> string \<Rightarrow> int"
  set_perms_ok :: "string \<Rightarrow> bool"
  default_perms :: "perm set"
  newKeyPem :: string
  getExpiry :: "certificate \<Rightarrow> int"
  toAce :: "string \<Rightarrow> string"

subsection \<open>The renewal timer\<close>

text \<open>
  The \<^verbatim>\<open>QTimer\<close> is modelled by the timeouts it has outstanding, each recorded as the
  \<^verbatim>\<open>int\<close> number of milliseconds that \<^verbatim>\<open>start(int msec)\<close> received.
  \<^verbatim>\<open>stop\<close> withdraws them; \<^verbatim>\<open>start\<close> adds one, and nothing here relies on
  \<^verbatim>\<open>start\<close> withdrawing an earlier timeout by itself.
\<close>

record qtimer =
  singleShot :: bool
  pending :: "int list"

definition QTimer_stop :: "qtimer \<Rightarrow> qtimer" where
  "QTimer_stop t = t\<lparr>pending := []\<rparr>"

definition QTimer_start :: "int \<Rightarrow> qtimer \<Rightarrow> qtimer" where
  "QTimer_start msec t = t\<lparr>pending := pending t @ [msec]\<rparr>"

subsection \<open>The state of the client\<close>

text \<open>What the program logs, writes and asks of the ACME library, in order.\<close>

datatype event =
    Critical_MissingFile string
  | Critical_ProvideOrRemove string
  | Critical_ReadCertificateFailed string string
  | Critical_CreateAccountKeyFailed string
  | Critical_ReadAccountKeyFailed string
  | Debug_RenewalScheduled int
  | OpenedForWriting string
  | Wrote string string int
  | AcmeInit string string "string list" "string \<times> string"

record challenge =
  url :: string
  content :: string

record world =
  files :: filesystem
  renewalTimer :: qtimer
  challengeHandler :: "challenge list option"
  selfCheckUrls :: "string list"
  trace :: "event list"

definition emit :: "event list \<Rightarrow> world \<Rightarrow> world" where
  "emit es w = w\<lparr>trace := trace w @ es\<rparr>"

definition exists :: "world \<Rightarrow> string \<Rightarrow> bool" where
  "exists w p \<longleftrightarrow> files w p \<noteq> None"

subsection \<open>Reading and writing the certificate files\<close>

text \<open>
  \<^verbatim>\<open>std::array<QString, 2> getCertFiles(settings)\<close>: the chain path first, the key
  path second. An array of two is a pair.
\<close>

definition getCertFiles :: "env \<Rightarrow> string \<times> string" where
  "getCertFiles e =
     (let certDir = certificate_directory (settings e);
          certFilename = certificate_filename (settings e);
          certKeyFilename = certificate_key_filename (settings e)
      in (filePath e certDir certFilename, filePath e certDir certKeyFilename))"

text \<open>
  \<^verbatim>\<open>readAll\<close>: the content when the file opens for reading, the empty string
  otherwise. A file that does not exist does not open.
\<close>

definition readAll :: "env \<Rightarrow> world \<Rightarrow> string \<Rightarrow> string" where
  "readAll e w path =
     (case files w path of
        None \<Rightarrow> []
      | Some f \<Rightarrow> if open_ro e path then bytes f else [])"

definition readCertificate :: "env \<Rightarrow> world \<Rightarrow> string \<times> string \<Rightarrow> certificate" where
  "readCertificate e w files' =
     \<lparr>fullchain = readAll e w (fst files'), privkey = readAll e w (snd files')\<rparr>"

text \<open>
  Opening for writing creates the file when it is missing and empties it when it is
  there; the permissions of an existing file stay.
\<close>

definition openWriteOnly :: "env \<Rightarrow> string \<Rightarrow> world \<Rightarrow> world" where
  "openWriteOnly e path w =
     emit [OpenedForWriting path]
       (w\<lparr>files := (files w)(path \<mapsto>
            \<lparr>bytes = [],
             perms = (case files w path of None \<Rightarrow> default_perms e | Some f \<Rightarrow> perms f)\<rparr>)\<rparr>)"

text \<open>
  \<^verbatim>\<open>file.write(data)\<close> on a file just opened for writing: the file holds the bytes
  that were written, and the count (or \<open>-1\<close>) is returned.
\<close>

definition writeData :: "env \<Rightarrow> string \<Rightarrow> string \<Rightarrow> world \<Rightarrow> int \<times> world" where
  "writeData e path data w =
     (let n = wrote e path data
      in (n, emit [Wrote path data n]
               (w\<lparr>files := (files w)(path \<mapsto>
                    \<lparr>bytes = take (nat n) data,
                     perms = (case files w path of None \<Rightarrow> default_perms e | Some f \<Rightarrow> perms f)\<rparr>)\<rparr>)))"

text \<open>
  \<^verbatim>\<open>return file.open(QFile::WriteOnly) && file.write(...) == qint64(data.size());\<close>
\<close>

definition writeAll :: "env \<Rightarrow> string \<Rightarrow> string \<Rightarrow> world \<Rightarrow> bool \<times> world" where
  "writeAll e data path w =
     (if open_wo e path
      then (let (n, w') = writeData e path data (openWriteOnly e path w)
            in (n = int (length data), w'))
      else (False, w))"

text \<open>
  \<^verbatim>\<open>return writeAll(cert.fullchain, files.front()) && writeAll(cert.privkey, files.back());\<close>
\<close>

definition writeCertificate :: "env \<Rightarrow> certificate \<Rightarrow> string \<times> string \<Rightarrow> world \<Rightarrow> bool \<times> world" where
  "writeCertificate e cert files' w =
     (let (ok, w') = writeAll e (fullchain cert) (fst files') w
      in if ok then writeAll e (privkey cert) (snd files') w' else (False, w'))"

subsection \<open>The account key\<close>

text \<open>
  \<^verbatim>\<open>createAccountKey\<close>: when the file opens for writing, the permissions are set to
  owner read and write, the PEM text of a fresh private key is written, and the result
  is true; neither the result of \<^verbatim>\<open>setPermissions\<close> nor that of \<^verbatim>\<open>write\<close> is
  looked at.
\<close>

definition setPermissions :: "env \<Rightarrow> string \<Rightarrow> perm set \<Rightarrow> world \<Rightarrow> world" where
  "setPermissions e path ps w =
     (case files w path of
        None \<Rightarrow> w
      | Some f \<Rightarrow> if set_perms_ok e path then w\<lparr>files := (files w)(path \<mapsto> f\<lparr>perms := ps\<rparr>)\<rparr> else w)"

definition createAccountKey :: "env \<Rightarrow> string \<Rightarrow> world \<Rightarrow> bool \<times> world" where
  "createAccountKey e path w =
     (if open_wo e path
      then (let w1 = openWriteOnly e path w;
                w2 = setPermissions e path {ReadOwner, WriteOwner} w1;
                (n, w3) = writeData e path (newKeyPem e) w2
            in (True, w3))
      else (False, w))"

subsection \<open>Scheduling the renewal\<close>

text \<open>
  \<^verbatim>\<open>dateTimeFrom\<close>: the time point in whole seconds since the epoch.
\<close>

definition dateTimeFrom :: "env \<Rightarrow> int \<Rightarrow> int" where
  "dateTimeFrom e time = tdiv time (ticks_per_ms e * 1000)"

text \<open>
  \<^verbatim>\<open>scheduleRenewalIn\<close>: stop the timer, start it with the duration in whole
  milliseconds, log the instant. The duration in milliseconds is a 64-bit
  \<^verbatim>\<open>count()\<close>; it is passed to \<^verbatim>\<open>QTimer::start(int)\<close> and so converted to 32 bits.
\<close>

definition scheduleRenewalIn :: "env \<Rightarrow> int \<Rightarrow> world \<Rightarrow> world" where
  "scheduleRenewalIn e duration w =
     emit [Debug_RenewalScheduled (dateTimeFrom e (wrap64 (now_log e + duration)))]
       (w\<lparr>renewalTimer := QTimer_start (wrap32 (tdiv duration (ticks_per_ms e)))
                               (QTimer_stop (renewalTimer w))\<rparr>)"

subsection \<open>Generating a certificate\<close>

text \<open>
  \<^verbatim>\<open>generateCertificate\<close> up to the point where it hands over to the ACME library:
  the account key file is created when it is missing and then read, the configured
  domains are converted with \<^verbatim>\<open>QUrl::toAce\<close>, and \<^verbatim>\<open>acme_lw::init\<close> is called
  with the key, the directory URL and the callbacks, which hold the domains and the
  certificate paths.
\<close>

definition generateCertificate :: "env \<Rightarrow> string \<times> string \<Rightarrow> world \<Rightarrow> world" where
  "generateCertificate e certPaths w =
     (let accountKeyFile = account_key_path (settings e);
          (created, w1) = (if \<not> exists w accountKeyFile
                           then createAccountKey e accountKeyFile w else (True, w))
      in if \<not> created
         then emit [Critical_CreateAccountKeyFailed accountKeyFile] w1
         else (case files w1 accountKeyFile of
                 None \<Rightarrow> emit [Critical_ReadAccountKeyFailed accountKeyFile] w1
               | Some f \<Rightarrow>
                   if open_ro e accountKeyFile
                   then (let accountKey = bytes f;
                             domains = map (toAce e) (certificate_domains (settings e));
                             directoryUrl = directory_endpoint (settings e)
                         in emit [AcmeInit accountKey directoryUrl domains certPaths] w1)
                   else emit [Critical_ReadAccountKeyFailed accountKeyFile] w1))"

subsection \<open>Checking the expiry\<close>

definition checkExpiry :: "env \<Rightarrow> string \<times> string \<Rightarrow> world \<Rightarrow> world" where
  "checkExpiry e certPaths w =
     (let cert = readCertificate e w certPaths
      in if fullchain cert = [] \<or> privkey cert = []
         then emit [Critical_ReadCertificateFailed (fst certPaths) (snd certPaths)] w
         else (let remaining = remainingTime (getExpiry e cert) (now e)
               in if remaining > 0
                  then scheduleRenewalIn e remaining w
                  else generateCertificate e certPaths w))"

subsection \<open>The startup decision\<close>

text \<open>
  \<^verbatim>\<open>std::stable_partition\<close>: the elements that satisfy the predicate first, the
  others after them, each group in its old order; the result of the call is the
  position of the first element of the second group.
\<close>

definition stable_partition :: "('a \<Rightarrow> bool) \<Rightarrow> 'a list \<Rightarrow> 'a list \<times> nat" where
  "stable_partition P xs = (filter P xs @ filter (\<lambda>x. \<not> P x) xs, length (filter P xs))"

definition init :: "env \<Rightarrow> world \<Rightarrow> world" where
  "init e w =
     (let (front, back) = getCertFiles e;
          (certFiles, notExisting) = stable_partition (exists w) [front, back]
      in if notExisting = length certFiles
         then checkExpiry e (certFiles ! 0, certFiles ! 1) w
         else if notExisting = 0
         then generateCertificate e (certFiles ! 0, certFiles ! 1) w
         else emit [Critical_MissingFile (certFiles ! notExisting),
                    Critical_ProvideOrRemove (certFiles ! 0)] w)"

text \<open>
  The constructor makes the timer single-shot, connects its timeout to \<^verbatim>\<open>init\<close> and
  calls \<^verbatim>\<open>init\<close>. A timeout of a single-shot timer is no longer outstanding when
  its handler runs.
\<close>

definition DomainServerAcmeClient :: "env \<Rightarrow> filesystem \<Rightarrow> world" where
  "DomainServerAcmeClient e fs =
     init e \<lparr>files = fs, renewalTimer = \<lparr>singleShot = True, pending = []\<rparr>,
              challengeHandler = None, selfCheckUrls = [], trace = []\<rparr>"

definition timeout :: "env \<Rightarrow> world \<Rightarrow> world" where
  "timeout e w =
     (case pending (renewalTimer w) of
        [] \<Rightarrow> w
      | msec # rest \<Rightarrow>
          init e (w\<lparr>renewalTimer := (renewalTimer w)
                     \<lparr>pending := (if singleShot (renewalTimer w) then rest else rest @ [msec])\<rparr>\<rparr>))"

subsection \<open>The embedded challenge server\<close>

text \<open>
  A \<^verbatim>\<open>QUrl\<close> is modelled by its text. \<^verbatim>\<open>addChallenge\<close> appends to the vector of
  challenges and ignores the domain.
\<close>

definition addChallenge :: "string \<Rightarrow> string \<Rightarrow> string \<Rightarrow> challenge list \<Rightarrow> challenge list" where
  "addChallenge domain location content' challenges =
     challenges @ [\<lparr>url = location, content = content'\<rparr>]"

record response =
  status :: nat
  body :: string
  contentType :: "string option"

text \<open>
  The body of the 404 response is built as a \<^verbatim>\<open>std::string\<close> and passed on through
  \<^verbatim>\<open>c_str()\<close>, so it ends before the first zero byte.
\<close>

definition c_str :: "string \<Rightarrow> string" where
  "c_str s = takeWhile (\<lambda>c. c \<noteq> CHR 0x00) s"

fun chstr_loop :: "string \<Rightarrow> challenge list \<Rightarrow> string" where
  "chstr_loop chstr [] = chstr"
| "chstr_loop chstr (ch # challenges) = chstr_loop (chstr @ url ch @ [CHR 0x0A]) challenges"

text \<open>
  \<^verbatim>\<open>handleHTTPRequest\<close>: the first challenge with the requested URL is answered with
  its content; when there is none, the answer is 404 with the list of the URLs of all
  challenges. The result is the returned flag and the response sent on the connection;
  a response that names no content type has \<open>None\<close> there.
\<close>

definition handleHTTPRequest :: "challenge list \<Rightarrow> string \<Rightarrow> bool \<times> response" where
  "handleHTTPRequest challenges u =
     (case find (\<lambda>x. url x = u) challenges of
        Some ch \<Rightarrow>
          (True, \<lparr>status = 200, body = content ch,
                  contentType = Some ''application/octet-stream''\<rparr>)
      | None \<Rightarrow>
          (let chstr = chstr_loop [] challenges
           in (True, \<lparr>status = 404,
                      body = c_str (''Resource not found. Url is '' @ u
                                    @ '' but expected any of'' @ [CHR 0x0A] @ chstr),
                      contentType = None\<rparr>)))"

subsection \<open>Callbacks of the order\<close>

text \<open>
  The continuation of \<^verbatim>\<open>createAccount\<close> installs a fresh challenge server before it
  orders the certificate; for every challenge of the order the library then calls the
  lambda that publishes the challenge and records the URL to check. A call through a
  null \<^verbatim>\<open>challengeHandler\<close> has no result.
\<close>

definition accountCreated :: "world \<Rightarrow> world" where
  "accountCreated w = w\<lparr>challengeHandler := Some []\<rparr>"

definition gotChallenge :: "string \<Rightarrow> string \<Rightarrow> string \<Rightarrow> world \<Rightarrow> world option" where
  "gotChallenge domain location keyAuth w =
     (case challengeHandler w of
        None \<Rightarrow> None
      | Some challenges \<Rightarrow>
          Some (w\<lparr>challengeHandler := Some (addChallenge domain location keyAuth challenges),
                  selfCheckUrls := selfCheckUrls w @ [''http://'' @ domain @ location]\<rparr>))"

subsection \<open>The self-check of the challenges\<close>

text \<open>
  A \<^verbatim>\<open>ChallengeSelfCheck\<close> object lives in a \<^verbatim>\<open>shared_ptr\<close>; its destructor calls
  the callback. The state is the use count of the pointer, whether the pointer that
  \<^verbatim>\<open>challengeSelfCheck\<close> returned is still alive (\<open>owner\<close>), the URLs that
  \<^verbatim>\<open>start\<close> has not yet handed to \<^verbatim>\<open>waitForGet\<close>, the requests in flight (each
  holds one \<^verbatim>\<open>shared_callback\<close>, that is one share of the pointer, until it resolves),
  the number of times the callback ran, and the warnings logged.
\<close>

record selfCheck =
  urls :: "string list"
  use_count :: nat
  owner :: bool
  checks :: "string list"
  called :: nat
  warnings :: "string list"

definition challengeSelfCheck :: "string list \<Rightarrow> selfCheck" where
  "challengeSelfCheck us =
     \<lparr>urls = us, use_count = 1, owner = True, checks = [], called = 0, warnings = []\<rparr>"

text \<open>Giving up one share; the last one runs the destructor, which calls the callback.\<close>

definition release :: "selfCheck \<Rightarrow> selfCheck" where
  "release s =
     (if use_count s = 0 then s
      else if use_count s = 1 then s\<lparr>use_count := 0, called := Suc (called s)\<rparr>
      else s\<lparr>use_count := use_count s - 1\<rparr>)"

definition waitForGet :: "string \<Rightarrow> selfCheck \<Rightarrow> selfCheck" where
  "waitForGet u s = s\<lparr>use_count := Suc (use_count s), checks := checks s @ [u]\<rparr>"

fun start_loop :: "string list \<Rightarrow> selfCheck \<Rightarrow> selfCheck" where
  "start_loop [] s = s"
| "start_loop (u # us) s = start_loop us (waitForGet u s)"

definition start :: "selfCheck \<Rightarrow> selfCheck" where
  "start s = start_loop (urls s) (s\<lparr>urls := []\<rparr>)"

text \<open>
  \<^verbatim>\<open>operator()(Response)\<close> does nothing, \<^verbatim>\<open>operator()(AcmeException)\<close> logs a
  warning; after either the request gives up its share.
\<close>

definition resolve :: "string \<Rightarrow> bool \<Rightarrow> selfCheck \<Rightarrow> selfCheck" where
  "resolve u ok s =
     release ((if ok then s else s\<lparr>warnings := warnings s @ [u]\<rparr>)
                \<lparr>checks := remove1 u (checks s)\<rparr>)"

definition destroy_owner :: "selfCheck \<Rightarrow> selfCheck" where
  "destroy_owner s = release (s\<lparr>owner := False\<rparr>)"

text \<open>
  What can happen to the object, one event at a time: \<^verbatim>\<open>start\<close> hands over the next
  URL, a request in flight resolves with a response or with an error, the statement
  that made the object ends and destroys the pointer it held. A request may resolve
  while \<^verbatim>\<open>start\<close> is still running. An event that cannot happen has no result.
\<close>

datatype sc_event = Launch | Resolved string bool | EndOfStatement

fun step :: "sc_event \<Rightarrow> selfCheck \<Rightarrow> selfCheck option" where
  "step Launch s =
     (case urls s of
        [] \<Rightarrow> None
      | u # us \<Rightarrow> if owner s then Some (waitForGet u (s\<lparr>urls := us\<rparr>)) else None)"
| "step (Resolved u ok) s = (if u \<in> set (checks s) then Some (resolve u ok s) else None)"
| "step EndOfStatement s = (if owner s \<and> urls s = [] then Some (destroy_owner s) else None)"

fun run :: "sc_event list \<Rightarrow> selfCheck \<Rightarrow> selfCheck option" where
  "run [] s = Some s"
| "run (ev # evs) s = (case step ev s of None \<Rightarrow> None | Some s' \<Rightarrow> run evs s')"

text \<open>
  Of a sequence of events, the URLs whose requests resolved, those that resolved with an
  error, and the events that resolve the given requests with the given outcomes.
\<close>

fun resolved :: "sc_event list \<Rightarrow> string list" where
  "resolved [] = []"
| "resolved (Resolved u ok # evs) = u # resolved evs"
| "resolved (Launch # evs) = resolved evs"
| "resolved (EndOfStatement # evs) = resolved evs"

fun failed :: "sc_event list \<Rightarrow> string list" where
  "failed [] = []"
| "failed (Resolved u ok # evs) = (if ok then failed evs else u # failed evs)"
| "failed (Launch # evs) = failed evs"
| "failed (EndOfStatement # evs) = failed evs"

definition resolutions :: "(string \<times> bool) list \<Rightarrow> sc_event list" where
  "resolutions rs = map (\<lambda>(u, ok). Resolved u ok) rs"

text \<open>
  The shares of the pointer are the owner's and one for each request in flight; the
  callback has run once when there is no share left and not at all before; \<^verbatim>\<open>start\<close>
  runs on the owner's pointer.
\<close>

definition shares_ok :: "selfCheck \<Rightarrow> bool" where
  "shares_ok s \<longleftrightarrow>
     use_count s = (if owner s then 1 else 0) + length (checks s)
     \<and> called s = (if use_count s = 0 then 1 else 0)
     \<and> (owner s \<or> urls s = [])"

text \<open>
  The success case of \<^verbatim>\<open>OrderCallback\<close>:
  \<^verbatim>\<open>challengeSelfCheck(..., std::move(selfCheckUrls))->start(); selfCheckUrls.clear();\<close>
  The result is the self-check as the statement leaves it, and the client.
\<close>

definition OrderCallback :: "world \<Rightarrow> selfCheck \<times> world" where
  "OrderCallback w =
     (destroy_owner (start (challengeSelfCheck (selfCheckUrls w))), w\<lparr>selfCheckUrls := []\<rparr>)"

subsection \<open>Concrete inputs\<close>

text \<open>
  A small installation on which the theorems below are tried: the certificate directory
  \<open>d\<close> with the chain file \<open>c\<close> and the key file \<open>k\<close>, the account key file \<open>a\<close>,
  a clock that ticks in nanoseconds, and file operations that all succeed.
\<close>

definition settings0 :: settings where
  "settings0 =
     \<lparr>certificate_directory = ''d'', certificate_filename = ''c'',
      certificate_key_filename = ''k'', account_key_path = ''a'',
      certificate_domains = [''example.test''], directory_endpoint = ''https://ca.test/dir''\<rparr>"

definition env0 :: env where
  "env0 =
     \<lparr>settings = settings0, filePath = (\<lambda>d f. d @ ''/'' @ f), now = 0, now_log = 0,
      ticks_per_ms = 1000000, open_ro = (\<lambda>p. True), open_wo = (\<lambda>p. True),
      wrote = (\<lambda>p d. int (length d)), set_perms_ok = (\<lambda>p. True),
      default_perms = {ReadOwner, WriteOwner, ReadGroup, ReadOther},
      newKeyPem = ''KEY'', getExpiry = (\<lambda>c. 1), toAce = (\<lambda>d. d)\<rparr>"

definition world0 :: "filesystem \<Rightarrow> world" where
  "world0 fs =
     \<lparr>files = fs, renewalTimer = \<lparr>singleShot = True, pending = []\<rparr>,
      challengeHandler = None, selfCheckUrls = [], trace = []\<rparr>"

definition pem :: "string \<Rightarrow> qfile" where
  "pem s = \<lparr>bytes = s, perms = {ReadOwner, WriteOwner}\<rparr>"

definition fs_both :: filesystem where
  "fs_both = [''d/c'' \<mapsto> pem ''CHAIN'', ''d/k'' \<mapsto> pem ''KEY'', ''a'' \<mapsto> pem ''ACCOUNT'']"

definition fs_none :: filesystem where
  "fs_none = [''a'' \<mapsto> pem ''ACCOUNT'']"

definition fs_chain_only :: filesystem where
  "fs_chain_only = [''d/c'' \<mapsto> pem ''CHAIN'', ''a'' \<mapsto> pem ''ACCOUNT'']"

definition fs_key_only :: filesystem where
  "fs_key_only = [''d/k'' \<mapsto> pem ''KEY'', ''a'' \<mapsto> pem ''ACCOUNT'']"

definition fs_empty_key :: filesystem where
  "fs_empty_key = [''d/c'' \<mapsto> pem ''CHAIN'', ''d/k'' \<mapsto> pem [], ''a'' \<mapsto> pem ''ACCOUNT'']"

text \<open>The clock at some instant, and a certificate that expires 90 days later.\<close>

definition env_90days :: env where
  "env_90days = env0\<lparr>now := 1635000000000000000,
                     getExpiry := (\<lambda>c. 1635000000000000000 + 7776000000000000)\<rparr>"

text \<open>A certificate that expires 60 days later, and one that expires 30 days later.\<close>

definition env_60days :: env where
  "env_60days = env0\<lparr>now := 1635000000000000000,
                     getExpiry := (\<lambda>c. 1635000000000000000 + 5184000000000000)\<rparr>"

definition env_30days :: env where
  "env_30days = env0\<lparr>now := 1635000000000000000,
                     getExpiry := (\<lambda>c. 1635000000000000000 + 2592000000000000)\<rparr>"

text \<open>A certificate that expires at a full second, and the clock one tick before it.\<close>

definition env_one_tick :: env where
  "env_one_tick = env0\<lparr>now := 1635000000999999999,
                       getExpiry := (\<lambda>c. 1635000001000000000)\<rparr>"

text \<open>A certificate that expired an hour ago.\<close>

definition env_expired :: env where
  "env_expired = env0\<lparr>now := 1635000000000000000,
                      getExpiry := (\<lambda>c. 1635000000000000000 - 3600000000000)\<rparr>"

text \<open>A certificate to write; a disk on which the key file takes one byte only.\<close>

definition cert0 :: certificate where
  "cert0 = \<lparr>fullchain = ''NEWCHAIN'', privkey = ''NEWKEY''\<rparr>"

definition env_short_key :: env where
  "env_short_key = env0\<lparr>wrote := (\<lambda>p d. if p = ''d/k'' then 1 else int (length d))\<rparr>"

text \<open>No account key file yet, and a disk on which every write fails.\<close>

definition fs_no_account :: filesystem where
  "fs_no_account = [''d/c'' \<mapsto> pem ''CHAIN'', ''d/k'' \<mapsto> pem ''KEY'']"

definition env_write_fails :: env where
  "env_write_fails = env0\<lparr>wrote := (\<lambda>p d. - 1)\<rparr>"

text \<open>Two published challenges.\<close>

definition challenges0 :: "challenge list" where
  "challenges0 =
     [\<lparr>url = ''/.well-known/acme-challenge/tokenA'', content = ''authA''\<rparr>,
      \<lparr>url = ''/.well-known/acme-challenge/tokenB'', content = ''authB''\<rparr>]"

text \<open>A conversion of names that is not the identity.\<close>

definition env_punycode :: env where
  "env_punycode = env0\<lparr>toAce := (\<lambda>d. ''xn--'' @ d)\<rparr>"

text \<open>Two URLs to check; the second request fails first, then the first one succeeds.\<close>

definition urls0 :: "string list" where
  "urls0 = [''http://a.test/x'', ''http://b.test/y'']"

definition events0 :: "sc_event list" where
  "events0 = [Launch, Launch, EndOfStatement,
              Resolved ''http://b.test/y'' False, Resolved ''http://a.test/x'' True]"

section \<open>Properties\<close>

subsection \<open>Arithmetic of durations\<close>

lemma wrap64_id: "- (2 ^ 63) \<le> x \<Longrightarrow> x < 2 ^ 63 \<Longrightarrow> wrap64 x = x"
  unfolding wrap64_def by (simp add: mod_pos_pos_trivial)

lemma tdiv_nonneg: "0 \<le> a \<Longrightarrow> 0 < b \<Longrightarrow> tdiv a b = a div b"
  unfolding tdiv_def by (cases "a = 0") simp_all

lemma tdiv_neg: "a < 0 \<Longrightarrow> 0 < b \<Longrightarrow> tdiv a b = - ((- a) div b)"
  unfolding tdiv_def by simp

lemma remainingTime_nowrap:
  assumes "- (2 ^ 62) \<le> E - n" and "E - n < 2 ^ 62"
  shows "remainingTime E n = tdiv (2 * (E - n)) 3"
proof -
  have a: "wrap64 (E - n) = E - n" using assms by (intro wrap64_id) simp_all
  have b: "wrap64 ((E - n) * 2) = (E - n) * 2" using assms by (intro wrap64_id) simp_all
  show ?thesis unfolding remainingTime_def a b by (simp add: mult.commute)
qed

lemma remainingTime_pos_iff:
  assumes "- (2 ^ 62) \<le> E - n" and "E - n < 2 ^ 62"
  shows "0 < remainingTime E n \<longleftrightarrow> 2 \<le> E - n"
proof (cases "0 \<le> E - n")
  case True
  then have "remainingTime E n = (2 * (E - n)) div 3"
    using assms by (simp add: remainingTime_nowrap tdiv_nonneg)
  moreover have "0 < (2 * (E - n)) div 3 \<longleftrightarrow> 2 \<le> E - n" by presburger
  ultimately show ?thesis by simp
next
  case False
  then have "remainingTime E n = - ((- (2 * (E - n))) div 3)"
    using assms by (simp add: remainingTime_nowrap tdiv_neg)
  moreover have "0 \<le> (- (2 * (E - n))) div 3" using False by presburger
  ultimately show ?thesis using False by simp
qed

lemma wrap32_id: "- (2 ^ 31) \<le> x \<Longrightarrow> x < 2 ^ 31 \<Longrightarrow> wrap32 x = x"
  unfolding wrap32_def by (simp add: mod_pos_pos_trivial)

lemma pending_scheduleRenewalIn:
  "pending (renewalTimer (scheduleRenewalIn e d w)) = [wrap32 (tdiv d (ticks_per_ms e))]"
  by (simp add: scheduleRenewalIn_def emit_def QTimer_start_def QTimer_stop_def)



subsection \<open>Expiry evaluation\<close>

text \<open>
  What the expiry evaluation does, for a certificate that was read. Let \<open>v\<close> be its
  expiry minus the clock, in ticks, such that its double fits the 64-bit tick count.
  When \<open>v\<close> is at least two ticks, the renewal is scheduled in \<open>2 * v div 3\<close> ticks:
  the timer is stopped and started with that duration in whole milliseconds, converted
  to 32 bits. When \<open>v\<close> is at most one tick, certificate generation begins at once.
\<close>

lemma checkExpiry_evaluation:
  assumes "readAll e w (fst certPaths) \<noteq> []" and "readAll e w (snd certPaths) \<noteq> []"
    and "v = getExpiry e (readCertificate e w certPaths) - now e"
    and "- (2 ^ 62) \<le> v" and "v < 2 ^ 62"
  shows "(2 \<le> v \<longrightarrow>
            checkExpiry e certPaths w = scheduleRenewalIn e (2 * v div 3) w
          \<and> pending (renewalTimer (checkExpiry e certPaths w))
              = [wrap32 (tdiv (2 * v div 3) (ticks_per_ms e))])
       \<and> (v \<le> 1 \<longrightarrow> checkExpiry e certPaths w = generateCertificate e certPaths w)"
proof -
  let ?cert = "readCertificate e w certPaths"
  have nonempty: "\<not> (fullchain ?cert = [] \<or> privkey ?cert = [])"
    using assms(1,2) by (simp add: readCertificate_def)
  have range: "- (2 ^ 62) \<le> getExpiry e ?cert - now e" "getExpiry e ?cert - now e < 2 ^ 62"
    using assms(3-5) by simp_all
  have pos: "0 < remainingTime (getExpiry e ?cert) (now e) \<longleftrightarrow> 2 \<le> v"
    using remainingTime_pos_iff [OF range] assms(3) by simp
  have val: "2 \<le> v \<Longrightarrow> remainingTime (getExpiry e ?cert) (now e) = 2 * v div 3"
    using remainingTime_nowrap [OF range] assms(3) by (simp add: tdiv_nonneg)
  have arm: "checkExpiry e certPaths w = scheduleRenewalIn e (2 * v div 3) w" if "2 \<le> v"
    using nonempty pos val that by (simp add: checkExpiry_def Let_def)
  have gen: "checkExpiry e certPaths w = generateCertificate e certPaths w" if "v \<le> 1"
    using nonempty pos that by (simp add: checkExpiry_def Let_def)
  show ?thesis using arm gen by (simp add: pending_scheduleRenewalIn)
qed

text \<open>
  With one tick of validity left, two thirds of it is zero ticks, and the certificate is
  generated anew.
\<close>

lemma checkExpiry_one_tick:
  "getExpiry env_one_tick (readCertificate env_one_tick (world0 fs_both) (''d/c'', ''d/k''))
       - now env_one_tick = 1
   \<and> pending (renewalTimer (checkExpiry env_one_tick (''d/c'', ''d/k'') (world0 fs_both))) = []
   \<and> checkExpiry env_one_tick (''d/c'', ''d/k'') (world0 fs_both)
       = generateCertificate env_one_tick (''d/c'', ''d/k'') (world0 fs_both)"
  by (simp add: checkExpiry_def readCertificate_def readAll_def env_one_tick_def env0_def
      world0_def fs_both_def pem_def remainingTime_def wrap64_def tdiv_def
      generateCertificate_def exists_def emit_def settings0_def)

text \<open>
  C1, at certificates that were read and expire 90, 60 and 30 days after the clock, with
  a clock that ticks in nanoseconds. Two thirds of 90 days are 60 days, that is
  5184000000 milliseconds; the timer is started with 889032704 milliseconds, a little
  over ten days. Two thirds of 60 days are 3456000000 milliseconds; the timer is started
  with the negative number -838967296. Two thirds of 30 days are 1728000000
  milliseconds, which fit 32 bits, and the timer is started with them.
\<close>

theorem C1_renewal_narrowed:
  "readAll env_90days (world0 fs_both) ''d/c'' \<noteq> []
   \<and> readAll env_90days (world0 fs_both) ''d/k'' \<noteq> []
   \<and> getExpiry env_90days (readCertificate env_90days (world0 fs_both) (''d/c'', ''d/k''))
       - now env_90days = 90 * 86400 * 1000000000
   \<and> remainingTime
        (getExpiry env_90days (readCertificate env_90days (world0 fs_both) (''d/c'', ''d/k'')))
        (now env_90days) = 60 * 86400 * 1000000000
   \<and> tdiv (60 * 86400 * 1000000000) (ticks_per_ms env_90days) = 5184000000
   \<and> pending (renewalTimer (checkExpiry env_90days (''d/c'', ''d/k'') (world0 fs_both)))
       = [889032704]
   \<and> pending (renewalTimer (checkExpiry env_60days (''d/c'', ''d/k'') (world0 fs_both)))
       = [- 838967296]
   \<and> pending (renewalTimer (checkExpiry env_30days (''d/c'', ''d/k'') (world0 fs_both)))
       = [1728000000]"
  by (simp add: checkExpiry_def readCertificate_def readAll_def env_90days_def env_60days_def
      env_30days_def env0_def world0_def fs_both_def pem_def remainingTime_def wrap64_def
      wrap32_def tdiv_def pending_scheduleRenewalIn)


subsection \<open>The startup decision\<close>

lemma stable_partition_pair:
  "stable_partition P [a, b] =
     (if P a \<and> P b then ([a, b], 2)
      else if \<not> P a \<and> \<not> P b then ([a, b], 0)
      else if P a then ([a, b], 1)
      else ([b, a], 1))"
  by (simp add: stable_partition_def)

text \<open>
  C2. Let \<open>chain\<close> and \<open>key\<close> be the two certificate paths. When both files exist,
  \<^verbatim>\<open>init\<close> is the expiry evaluation on the two paths in their order; when neither
  exists, it is certificate generation on them; when one exists and the other does not,
  it logs the missing path as missing and the present path as the one to remove, and
  changes nothing else: files and timer stay as they were.
\<close>

theorem C2_startup_decision:
  assumes "getCertFiles e = (chain, key)"
  shows "(exists w chain \<and> exists w key \<longrightarrow> init e w = checkExpiry e (chain, key) w)
       \<and> (\<not> exists w chain \<and> \<not> exists w key \<longrightarrow>
            init e w = generateCertificate e (chain, key) w)
       \<and> (exists w chain \<and> \<not> exists w key \<longrightarrow>
            init e w = w\<lparr>trace := trace w @ [Critical_MissingFile key,
                                              Critical_ProvideOrRemove chain]\<rparr>)
       \<and> (\<not> exists w chain \<and> exists w key \<longrightarrow>
            init e w = w\<lparr>trace := trace w @ [Critical_MissingFile chain,
                                              Critical_ProvideOrRemove key]\<rparr>)"
  using assms by (simp add: init_def stable_partition_pair emit_def)

theorem C2_startup_decision_witness:
  "init env0 (world0 fs_both) = checkExpiry env0 (''d/c'', ''d/k'') (world0 fs_both)
   \<and> init env0 (world0 fs_none) = generateCertificate env0 (''d/c'', ''d/k'') (world0 fs_none)
   \<and> init env0 (world0 fs_chain_only)
       = (world0 fs_chain_only)\<lparr>trace := [Critical_MissingFile ''d/k'',
                                           Critical_ProvideOrRemove ''d/c'']\<rparr>
   \<and> init env0 (world0 fs_key_only)
       = (world0 fs_key_only)\<lparr>trace := [Critical_MissingFile ''d/c'',
                                         Critical_ProvideOrRemove ''d/k'']\<rparr>
   \<and> pending (renewalTimer (init env0 (world0 fs_chain_only))) = []"
proof -
  have g: "getCertFiles env0 = (''d/c'', ''d/k'')"
    by (simp add: getCertFiles_def env0_def settings0_def)
  have x: "exists (world0 fs_both) ''d/c''" "exists (world0 fs_both) ''d/k''"
    "\<not> exists (world0 fs_none) ''d/c''" "\<not> exists (world0 fs_none) ''d/k''"
    "exists (world0 fs_chain_only) ''d/c''" "\<not> exists (world0 fs_chain_only) ''d/k''"
    "\<not> exists (world0 fs_key_only) ''d/c''" "exists (world0 fs_key_only) ''d/k''"
    by (simp_all add: exists_def world0_def fs_both_def fs_none_def fs_chain_only_def
        fs_key_only_def)
  have t: "trace (world0 fs) = []" "pending (renewalTimer (world0 fs)) = []" for fs
    by (simp_all add: world0_def)
  show ?thesis
    using C2_startup_decision [OF g, of "world0 fs_both"]
      C2_startup_decision [OF g, of "world0 fs_none"]
      C2_startup_decision [OF g, of "world0 fs_chain_only"]
      C2_startup_decision [OF g, of "world0 fs_key_only"]
    by (simp add: x t)
qed

subsection \<open>Reading the certificate\<close>

text \<open>
  C6. When the chain or the key reads as empty (the file is missing, does not open, or
  is empty), \<^verbatim>\<open>checkExpiry\<close> logs the read failure and does nothing else: the timer
  and the files are as before, no renewal is scheduled and the ACME library is not
  called.
\<close>

theorem C6_empty_read_is_failure:
  assumes "readAll e w (fst certPaths) = [] \<or> readAll e w (snd certPaths) = []"
  shows "checkExpiry e certPaths w
           = w\<lparr>trace := trace w @ [Critical_ReadCertificateFailed (fst certPaths)
                                                                (snd certPaths)]\<rparr>
       \<and> renewalTimer (checkExpiry e certPaths w) = renewalTimer w
       \<and> files (checkExpiry e certPaths w) = files w"
  using assms by (auto simp: checkExpiry_def readCertificate_def emit_def)

theorem C6_empty_read_is_failure_witness:
  "readAll env_90days (world0 fs_empty_key) ''d/k'' = []
   \<and> checkExpiry env_90days (''d/c'', ''d/k'') (world0 fs_empty_key)
       = (world0 fs_empty_key)\<lparr>trace := [Critical_ReadCertificateFailed ''d/c'' ''d/k'']\<rparr>
   \<and> pending (renewalTimer (checkExpiry env_90days (''d/c'', ''d/k'') (world0 fs_empty_key))) = []"
proof -
  have r: "readAll env_90days (world0 fs_empty_key) ''d/k'' = []"
    by (simp add: readAll_def world0_def fs_empty_key_def pem_def)
  then have "readAll env_90days (world0 fs_empty_key) (fst (''d/c'', ''d/k'')) = []
           \<or> readAll env_90days (world0 fs_empty_key) (snd (''d/c'', ''d/k'')) = []"
    by simp
  from C6_empty_read_is_failure [OF this] r show ?thesis
    by (simp add: world0_def)
qed

subsection \<open>Arming the renewal timer\<close>

lemma singleShot_generateCertificate:
  "renewalTimer (generateCertificate e certPaths w) = renewalTimer w"
  by (simp add: generateCertificate_def createAccountKey_def writeData_def setPermissions_def
      openWriteOnly_def emit_def Let_def split: option.splits prod.splits)

lemma singleShot_init:
  "singleShot (renewalTimer (init e w)) = singleShot (renewalTimer w)"
  by (simp add: init_def stable_partition_pair checkExpiry_def scheduleRenewalIn_def emit_def
      QTimer_start_def QTimer_stop_def singleShot_generateCertificate Let_def
      split: prod.splits)

text \<open>
  Whatever was outstanding on the renewal timer, after \<^verbatim>\<open>scheduleRenewalIn\<close> exactly
  the timeout of that call is outstanding; so after two calls in a row only the timeout
  of the second call is. Its interval is the duration of the second call in whole
  milliseconds, converted to 32 bits, which is that number of milliseconds when it is
  less than \<open>2 ^ 31\<close>. The constructor makes the timer single-shot and scheduling
  keeps it so; when a single-shot timer fires, no timeout is left outstanding as
  \<^verbatim>\<open>init\<close> is entered again.
\<close>

lemma rearm_outstanding:
  "pending (renewalTimer (scheduleRenewalIn e d w)) = [wrap32 (tdiv d (ticks_per_ms e))]
   \<and> pending (renewalTimer (scheduleRenewalIn e2 d2 (scheduleRenewalIn e1 d1 w)))
       = [wrap32 (tdiv d2 (ticks_per_ms e2))]
   \<and> length (pending (renewalTimer (scheduleRenewalIn e2 d2 (scheduleRenewalIn e1 d1 w)))) = 1
   \<and> singleShot (renewalTimer (scheduleRenewalIn e d w)) = singleShot (renewalTimer w)
   \<and> singleShot (renewalTimer (DomainServerAcmeClient e' fs))
   \<and> (singleShot (renewalTimer w) \<longrightarrow>
        timeout e' (scheduleRenewalIn e2 d2 (scheduleRenewalIn e1 d1 w))
        = init e' ((scheduleRenewalIn e2 d2 (scheduleRenewalIn e1 d1 w))
                     \<lparr>renewalTimer := (renewalTimer w)\<lparr>pending := []\<rparr>\<rparr>))"
  by (simp add: scheduleRenewalIn_def emit_def QTimer_start_def QTimer_stop_def timeout_def
      DomainServerAcmeClient_def singleShot_init)

lemma rearm_in_range:
  assumes "0 \<le> tdiv d2 (ticks_per_ms e2)" and "tdiv d2 (ticks_per_ms e2) < 2 ^ 31"
  shows "pending (renewalTimer (scheduleRenewalIn e2 d2 (scheduleRenewalIn e1 d1 w)))
       = [tdiv d2 (ticks_per_ms e2)]"
  using assms by (simp add: pending_scheduleRenewalIn wrap32_id)

text \<open>
  C7, at a renewal scheduled in one hour and then in 60 days, with a clock that ticks in
  nanoseconds: one timeout is outstanding afterwards, and its interval is 889032704
  milliseconds, a little over ten days, where 60 days are 5184000000 milliseconds.
  Scheduled in one hour and then in 40 days, the interval is negative.
\<close>

theorem C7_rearm_narrowed:
  "tdiv (60 * 86400 * 1000000000) (ticks_per_ms env0) = 5184000000
   \<and> pending (renewalTimer (scheduleRenewalIn env0 (60 * 86400 * 1000000000)
        (scheduleRenewalIn env0 (3600 * 1000000000) (world0 fs_both)))) = [889032704]
   \<and> tdiv (40 * 86400 * 1000000000) (ticks_per_ms env0) = 3456000000
   \<and> pending (renewalTimer (scheduleRenewalIn env0 (40 * 86400 * 1000000000)
        (scheduleRenewalIn env0 (3600 * 1000000000) (world0 fs_both)))) = [- 838967296]"
  by (simp add: pending_scheduleRenewalIn env0_def tdiv_def wrap32_def)

subsection \<open>Writing the certificate\<close>

text \<open>
  C5. \<^verbatim>\<open>writeCertificate\<close> is true exactly when both files open for writing and both
  writes return the full length; then the key file holds the key and the chain file (at
  another path) holds the chain. It removes no file: every path that existed before
  exists afterwards. The chain file is opened and written first, and the key file is
  opened and written only after the chain was written in full; when the chain fails, a
  key file at another path is left as it was. In every case the content of every file
  afterwards is this: the key path holds the bytes of the key that were written, when
  the key file was opened; otherwise the chain path holds the bytes of the chain that
  were written, when the chain file was opened; every other file holds what it held.
  The permissions of a file that existed stay, and a file that is created gets the
  default ones.
\<close>

theorem C5_writeCertificate:
  assumes "writeCertificate e cert (chain, key) w = (ok, w')"
  shows "(ok \<longleftrightarrow> open_wo e chain
                \<and> wrote e chain (fullchain cert) = int (length (fullchain cert))
                \<and> open_wo e key
                \<and> wrote e key (privkey cert) = int (length (privkey cert)))
       \<and> (\<forall>p. exists w p \<longrightarrow> exists w' p)
       \<and> trace w' = trace w
            @ (if open_wo e chain
               then [OpenedForWriting chain,
                     Wrote chain (fullchain cert) (wrote e chain (fullchain cert))]
                    @ (if wrote e chain (fullchain cert) = int (length (fullchain cert))
                          \<and> open_wo e key
                       then [OpenedForWriting key,
                             Wrote key (privkey cert) (wrote e key (privkey cert))]
                       else [])
               else [])
       \<and> (\<not> (open_wo e chain
               \<and> wrote e chain (fullchain cert) = int (length (fullchain cert)))
            \<and> key \<noteq> chain \<longrightarrow> files w' key = files w key)
       \<and> (ok \<longrightarrow> map_option bytes (files w' key) = Some (privkey cert)
                 \<and> (chain \<noteq> key \<longrightarrow> map_option bytes (files w' chain) = Some (fullchain cert)))
       \<and> (\<forall>p. map_option bytes (files w' p)
              = (if open_wo e chain
                    \<and> wrote e chain (fullchain cert) = int (length (fullchain cert))
                    \<and> open_wo e key \<and> p = key
                 then Some (take (nat (wrote e key (privkey cert))) (privkey cert))
                 else if open_wo e chain \<and> p = chain
                 then Some (take (nat (wrote e chain (fullchain cert))) (fullchain cert))
                 else map_option bytes (files w p)))
       \<and> (\<forall>p. map_option perms (files w' p)
              = (if exists w' p \<and> \<not> exists w p then Some (default_perms e)
                 else map_option perms (files w p)))"
proof -
  let ?n1 = "wrote e chain (fullchain cert)"
  let ?n2 = "wrote e key (privkey cert)"
  let ?full1 = "open_wo e chain \<and> ?n1 = int (length (fullchain cert))"
  have result: "ok \<longleftrightarrow> open_wo e chain \<and> ?n1 = int (length (fullchain cert))
      \<and> open_wo e key \<and> ?n2 = int (length (privkey cert))"
    using assms
    by (auto simp: writeCertificate_def writeAll_def writeData_def openWriteOnly_def emit_def
        Let_def split: if_splits)
  have kept: "\<forall>p. exists w p \<longrightarrow> exists w' p"
    using assms
    by (auto simp: writeCertificate_def writeAll_def writeData_def openWriteOnly_def emit_def
        exists_def Let_def split: if_splits)
  have order: "trace w' = trace w
            @ (if open_wo e chain
               then [OpenedForWriting chain, Wrote chain (fullchain cert) ?n1]
                    @ (if ?n1 = int (length (fullchain cert)) \<and> open_wo e key
                       then [OpenedForWriting key, Wrote key (privkey cert) ?n2]
                       else [])
               else [])"
    using assms
    by (auto simp: writeCertificate_def writeAll_def writeData_def openWriteOnly_def emit_def
        Let_def split: if_splits)
  have untouched: "\<not> ?full1 \<and> key \<noteq> chain \<longrightarrow> files w' key = files w key"
    using assms
    by (auto simp: writeCertificate_def writeAll_def writeData_def openWriteOnly_def emit_def
        Let_def split: if_splits)
  have contents: "\<forall>p. map_option bytes (files w' p)
              = (if open_wo e chain \<and> ?n1 = int (length (fullchain cert))
                    \<and> open_wo e key \<and> p = key
                 then Some (take (nat ?n2) (privkey cert))
                 else if open_wo e chain \<and> p = chain
                 then Some (take (nat ?n1) (fullchain cert))
                 else map_option bytes (files w p))"
    using assms
    by (auto simp: writeCertificate_def writeAll_def writeData_def openWriteOnly_def emit_def
        Let_def split: if_splits)
  have permissions: "\<forall>p. map_option perms (files w' p)
              = (if exists w' p \<and> \<not> exists w p then Some (default_perms e)
                 else map_option perms (files w p))"
    using assms
    by (auto simp: writeCertificate_def writeAll_def writeData_def openWriteOnly_def emit_def
        exists_def Let_def split: if_splits option.splits)
  have success: "ok \<longrightarrow> map_option bytes (files w' key) = Some (privkey cert)
                 \<and> (chain \<noteq> key \<longrightarrow> map_option bytes (files w' chain) = Some (fullchain cert))"
  proof
    assume ok
    with result have f: "open_wo e chain" "?n1 = int (length (fullchain cert))"
      "open_wo e key" "?n2 = int (length (privkey cert))"
      by simp_all
    from contents have "map_option bytes (files w' key)
        = Some (take (nat ?n2) (privkey cert))"
      using f by simp
    moreover from contents have "map_option bytes (files w' chain)
        = Some (take (nat ?n1) (fullchain cert))" if "chain \<noteq> key"
      using f that by simp
    ultimately show "map_option bytes (files w' key) = Some (privkey cert)
        \<and> (chain \<noteq> key \<longrightarrow> map_option bytes (files w' chain) = Some (fullchain cert))"
      using f by simp
  qed
  from result kept order untouched success contents permissions show ?thesis
    by (intro conjI)
qed

theorem C5_writeCertificate_witness:
  "fst (writeCertificate env0 cert0 (''d/c'', ''d/k'') (world0 fs_both))
   \<and> map_option bytes (files (snd (writeCertificate env0 cert0 (''d/c'', ''d/k'')
        (world0 fs_both))) ''d/c'') = Some ''NEWCHAIN''
   \<and> map_option bytes (files (snd (writeCertificate env0 cert0 (''d/c'', ''d/k'')
        (world0 fs_both))) ''d/k'') = Some ''NEWKEY''
   \<and> \<not> fst (writeCertificate env_short_key cert0 (''d/c'', ''d/k'') (world0 fs_both))
   \<and> exists (snd (writeCertificate env_short_key cert0 (''d/c'', ''d/k'') (world0 fs_both))) ''d/c''
   \<and> exists (snd (writeCertificate env_short_key cert0 (''d/c'', ''d/k'') (world0 fs_both))) ''d/k''
   \<and> map_option bytes (files (snd (writeCertificate env_short_key cert0 (''d/c'', ''d/k'')
        (world0 fs_both))) ''d/c'') = Some ''NEWCHAIN''
   \<and> map_option bytes (files (snd (writeCertificate env_short_key cert0 (''d/c'', ''d/k'')
        (world0 fs_both))) ''d/k'') = Some ''N''
   \<and> map_option bytes (files (snd (writeCertificate env_short_key cert0 (''d/c'', ''d/k'')
        (world0 fs_both))) ''a'') = Some ''ACCOUNT''
   \<and> trace (snd (writeCertificate env_short_key cert0 (''d/c'', ''d/k'') (world0 fs_both)))
       = [OpenedForWriting ''d/c'', Wrote ''d/c'' ''NEWCHAIN'' 8,
          OpenedForWriting ''d/k'', Wrote ''d/k'' ''NEWKEY'' 1]"
proof -
  have x: "exists (world0 fs_both) ''d/c''" "exists (world0 fs_both) ''d/k''"
    by (simp_all add: exists_def world0_def fs_both_def)
  have t: "trace (world0 fs_both) = []" by (simp add: world0_def)
  have f: "map_option bytes (files (world0 fs_both) ''a'') = Some ''ACCOUNT''"
    by (simp add: world0_def fs_both_def pem_def)
  have a: "open_wo env0 p" "wrote env0 p d = int (length d)" for p d
    by (simp_all add: env0_def)
  have b: "open_wo env_short_key p" "wrote env_short_key ''d/c'' d = int (length d)"
    "wrote env_short_key ''d/k'' d = 1" for p d
    by (simp_all add: env_short_key_def env0_def)
  have c: "fullchain cert0 = ''NEWCHAIN''" "privkey cert0 = ''NEWKEY''"
    by (simp_all add: cert0_def)
  show ?thesis
    using C5_writeCertificate [OF surjective_pairing, of env0 cert0 "''d/c''" "''d/k''"
        "world0 fs_both"]
      C5_writeCertificate [OF surjective_pairing, of env_short_key cert0 "''d/c''" "''d/k''"
        "world0 fs_both"] x
    by (simp add: a b c t f)
qed

subsection \<open>The account key\<close>

lemma generateCertificate_key_errors:
  "(\<not> exists w (account_key_path (settings e)) \<and> \<not> open_wo e (account_key_path (settings e))
      \<longrightarrow> generateCertificate e certPaths w
           = emit [Critical_CreateAccountKeyFailed (account_key_path (settings e))] w)
   \<and> (exists w (account_key_path (settings e)) \<and> \<not> open_ro e (account_key_path (settings e))
      \<longrightarrow> generateCertificate e certPaths w
           = emit [Critical_ReadAccountKeyFailed (account_key_path (settings e))] w)"
  by (auto simp: generateCertificate_def createAccountKey_def exists_def Let_def
      split: option.splits)

text \<open>
  C8, at an installation without an account key file where the file opens for writing
  but the write fails: \<^verbatim>\<open>createAccountKey\<close> reports success, no failure to create
  the key is logged, the empty file is read back, and the ACME library is started with
  an empty account key.
\<close>

theorem C8_unchecked_write:
  "\<not> exists (world0 fs_no_account) (account_key_path (settings env_write_fails))
   \<and> fst (createAccountKey env_write_fails ''a'' (world0 fs_no_account))
   \<and> files (generateCertificate env_write_fails (''d/c'', ''d/k'') (world0 fs_no_account)) ''a''
       = Some \<lparr>bytes = [], perms = {ReadOwner, WriteOwner}\<rparr>
   \<and> trace (generateCertificate env_write_fails (''d/c'', ''d/k'') (world0 fs_no_account))
       = [OpenedForWriting ''a'', Wrote ''a'' ''KEY'' (- 1),
          AcmeInit [] ''https://ca.test/dir'' [''example.test''] (''d/c'', ''d/k'')]"
  by (simp add: generateCertificate_def createAccountKey_def writeData_def setPermissions_def
      openWriteOnly_def emit_def exists_def env_write_fails_def env0_def settings0_def
      world0_def fs_no_account_def pem_def Let_def)
subsection \<open>The embedded challenge server\<close>

lemma chstr_loop_concat:
  "chstr_loop chstr challenges = chstr @ concat (map (\<lambda>ch. url ch @ [CHR 0x0A]) challenges)"
  by (induction challenges arbitrary: chstr) simp_all

lemma c_str_no_zero: "CHR 0x00 \<notin> set s \<Longrightarrow> c_str s = s"
  by (auto simp: c_str_def takeWhile_eq_all_conv)

lemma sublist_concat_map:
  assumes "x \<in> set xs"
  shows "sublist (f x) (concat (map f xs))"
proof -
  from assms obtain ys zs where "xs = ys @ x # zs"
    by (auto dest: split_list)
  then have "concat (map f xs) = concat (map f ys) @ f x @ concat (map f zs)"
    by simp
  then show ?thesis
    unfolding sublist_def by blast
qed

lemma find_first_match:
  assumes "find P xs = Some x"
  shows "\<exists>pre post. xs = pre @ x # post \<and> P x \<and> (\<forall>y \<in> set pre. \<not> P y)"
  using assms
proof (induction xs)
  case Nil
  then show ?case by simp
next
  case (Cons a xs)
  show ?case
  proof (cases "P a")
    case True
    with Cons.prems have "x = a" by simp
    with True have "a # xs = [] @ x # xs \<and> P x \<and> (\<forall>y \<in> set []. \<not> P y)" by simp
    then show ?thesis by blast
  next
    case False
    with Cons obtain pre post where "xs = pre @ x # post \<and> P x \<and> (\<forall>y \<in> set pre. \<not> P y)"
      by auto
    with False have "a # xs = (a # pre) @ x # post \<and> P x \<and> (\<forall>y \<in> set (a # pre). \<not> P y)"
      by simp
    then show ?thesis by blast
  qed
qed

lemma find_None_no_match: "find P xs = None \<longleftrightarrow> (\<forall>x \<in> set xs. \<not> P x)"
  by (induction xs) auto

text \<open>
  C4. The handler always returns true. When some published challenge has the requested
  URL, the response is 200 with content type \<open>application/octet-stream\<close> and the
  content of the first such challenge in the order of publication, and of the only one
  when no two challenges share a URL. When none has it, the response is 404, and its
  body is the message, the requested URL, and the URL of every published challenge, each
  followed by a line feed; this is for URLs whose text has no zero byte, where the body
  would end.
\<close>

theorem C4_handleHTTPRequest:
  "fst (handleHTTPRequest challenges u)
   \<and> (u \<in> url ` set challenges \<longrightarrow>
        (\<exists>pre ch post. challenges = pre @ ch # post \<and> u \<notin> url ` set pre \<and> url ch = u
           \<and> snd (handleHTTPRequest challenges u)
               = \<lparr>status = 200, body = content ch,
                  contentType = Some ''application/octet-stream''\<rparr>))
   \<and> (u \<in> url ` set challenges \<and> distinct (map url challenges) \<longrightarrow>
        (\<forall>ch \<in> set challenges. url ch = u \<longrightarrow>
           snd (handleHTTPRequest challenges u)
             = \<lparr>status = 200, body = content ch,
                contentType = Some ''application/octet-stream''\<rparr>))
   \<and> (u \<notin> url ` set challenges \<longrightarrow>
        status (snd (handleHTTPRequest challenges u)) = 404
        \<and> (CHR 0x00 \<notin> set u \<and> (\<forall>ch \<in> set challenges. CHR 0x00 \<notin> set (url ch)) \<longrightarrow>
             body (snd (handleHTTPRequest challenges u))
               = ''Resource not found. Url is '' @ u @ '' but expected any of'' @ [CHR 0x0A]
                 @ concat (map (\<lambda>ch. url ch @ [CHR 0x0A]) challenges)
             \<and> (\<forall>ch \<in> set challenges.
                   sublist (url ch @ [CHR 0x0A]) (body (snd (handleHTTPRequest challenges u))))))"
proof -
  have ret: "fst (handleHTTPRequest challenges u)"
    by (simp add: handleHTTPRequest_def split: option.splits)
  have hit: "\<exists>pre ch post. challenges = pre @ ch # post \<and> u \<notin> url ` set pre \<and> url ch = u
           \<and> snd (handleHTTPRequest challenges u)
               = \<lparr>status = 200, body = content ch,
                  contentType = Some ''application/octet-stream''\<rparr>"
    if "u \<in> url ` set challenges"
  proof -
    from that have "find (\<lambda>x. url x = u) challenges \<noteq> None"
      by (auto simp: find_None_no_match)
    then obtain ch where f: "find (\<lambda>x. url x = u) challenges = Some ch" by blast
    from find_first_match [OF f] obtain pre post
      where p: "challenges = pre @ ch # post" "url ch = u" "\<forall>y \<in> set pre. url y \<noteq> u"
      by blast
    from p(3) have n: "u \<notin> url ` set pre" by auto
    have r: "snd (handleHTTPRequest challenges u)
        = \<lparr>status = 200, body = content ch, contentType = Some ''application/octet-stream''\<rparr>"
      using f by (simp add: handleHTTPRequest_def)
    show ?thesis
    proof (intro exI conjI)
      show "challenges = pre @ ch # post" by (rule p(1))
      show "u \<notin> url ` set pre" by (rule n)
      show "url ch = u" by (rule p(2))
      show "snd (handleHTTPRequest challenges u)
        = \<lparr>status = 200, body = content ch, contentType = Some ''application/octet-stream''\<rparr>"
        by (rule r)
    qed
  qed
  have only: "snd (handleHTTPRequest challenges u)
             = \<lparr>status = 200, body = content ch,
                contentType = Some ''application/octet-stream''\<rparr>"
    if "u \<in> url ` set challenges" "distinct (map url challenges)" "ch \<in> set challenges"
      "url ch = u" for ch
  proof -
    from hit [OF that(1)] obtain pre ch' post
      where c: "challenges = pre @ ch' # post" "url ch' = u"
        and r: "snd (handleHTTPRequest challenges u)
               = \<lparr>status = 200, body = content ch',
                  contentType = Some ''application/octet-stream''\<rparr>"
      by blast
    from c(1) have "ch' \<in> set challenges" by simp
    from that(2) have "inj_on url (set challenges)" by (simp add: distinct_map)
    with \<open>ch' \<in> set challenges\<close> that(3,4) c(2) have "ch' = ch"
      by (simp add: inj_on_def)
    with r show ?thesis by simp
  qed
  have miss: "status (snd (handleHTTPRequest challenges u)) = 404
      \<and> (CHR 0x00 \<notin> set u \<and> (\<forall>ch \<in> set challenges. CHR 0x00 \<notin> set (url ch)) \<longrightarrow>
           body (snd (handleHTTPRequest challenges u))
             = ''Resource not found. Url is '' @ u @ '' but expected any of'' @ [CHR 0x0A]
               @ concat (map (\<lambda>ch. url ch @ [CHR 0x0A]) challenges)
           \<and> (\<forall>ch \<in> set challenges.
                 sublist (url ch @ [CHR 0x0A]) (body (snd (handleHTTPRequest challenges u)))))"
    if "u \<notin> url ` set challenges"
  proof -
    let ?list = "concat (map (\<lambda>ch. url ch @ [CHR 0x0A]) challenges)"
    define head where "head = ''Resource not found. Url is '' @ u @ '' but expected any of''
      @ [CHR 0x0A]"
    have msg: "''Resource not found. Url is '' @ u @ '' but expected any of'' @ [CHR 0x0A]
        @ ?list = head @ ?list"
      by (simp add: head_def)
    from that have f: "find (\<lambda>x. url x = u) challenges = None"
      by (auto simp: find_None_no_match)
    have r: "snd (handleHTTPRequest challenges u)
        = \<lparr>status = 404, body = c_str (head @ ?list), contentType = None\<rparr>"
      using f by (simp add: handleHTTPRequest_def chstr_loop_concat head_def)
    have st: "status (snd (handleHTTPRequest challenges u)) = 404"
      unfolding r by simp
    have bd: "body (snd (handleHTTPRequest challenges u)) = head @ ?list
        \<and> (\<forall>ch \<in> set challenges.
              sublist (url ch @ [CHR 0x0A]) (body (snd (handleHTTPRequest challenges u))))"
      if z: "CHR 0x00 \<notin> set u \<and> (\<forall>ch \<in> set challenges. CHR 0x00 \<notin> set (url ch))"
    proof -
      have "CHR 0x00 \<notin> set ?list" using z by auto
      moreover have "CHR 0x00 \<notin> set head" using z by (simp add: head_def)
      ultimately have "CHR 0x00 \<notin> set (head @ ?list)" by simp
      then have "c_str (head @ ?list) = head @ ?list" by (rule c_str_no_zero)
      then have b: "body (snd (handleHTTPRequest challenges u)) = head @ ?list"
        unfolding r by simp
      have "sublist (url ch @ [CHR 0x0A]) (head @ ?list)" if "ch \<in> set challenges" for ch
      proof -
        from sublist_concat_map [OF that, of "\<lambda>ch. url ch @ [CHR 0x0A]"]
        have "sublist (url ch @ [CHR 0x0A]) ?list" .
        then obtain ps ss where "?list = ps @ (url ch @ [CHR 0x0A]) @ ss"
          unfolding sublist_def by blast
        then have "head @ ?list = (head @ ps) @ (url ch @ [CHR 0x0A]) @ ss"
          by simp
        then show ?thesis unfolding sublist_def by blast
      qed
      then show ?thesis unfolding b by simp
    qed
    show ?thesis
      unfolding msg using st bd by blast
  qed
  have A: "u \<in> url ` set challenges \<longrightarrow>
        (\<exists>pre ch post. challenges = pre @ ch # post \<and> u \<notin> url ` set pre \<and> url ch = u
           \<and> snd (handleHTTPRequest challenges u)
               = \<lparr>status = 200, body = content ch,
                  contentType = Some ''application/octet-stream''\<rparr>)"
    using hit by (rule impI)
  have B: "u \<in> url ` set challenges \<and> distinct (map url challenges) \<longrightarrow>
        (\<forall>ch \<in> set challenges. url ch = u \<longrightarrow>
           snd (handleHTTPRequest challenges u)
             = \<lparr>status = 200, body = content ch,
                contentType = Some ''application/octet-stream''\<rparr>)"
  proof (intro impI ballI)
    fix ch
    assume "u \<in> url ` set challenges \<and> distinct (map url challenges)"
    then have "u \<in> url ` set challenges" "distinct (map url challenges)" by (rule conjunct1, rule conjunct2)
    moreover assume "ch \<in> set challenges" "url ch = u"
    ultimately show "snd (handleHTTPRequest challenges u)
             = \<lparr>status = 200, body = content ch,
                contentType = Some ''application/octet-stream''\<rparr>"
      by (rule only)
  qed
  have C: "u \<notin> url ` set challenges \<longrightarrow>
        status (snd (handleHTTPRequest challenges u)) = 404
        \<and> (CHR 0x00 \<notin> set u \<and> (\<forall>ch \<in> set challenges. CHR 0x00 \<notin> set (url ch)) \<longrightarrow>
             body (snd (handleHTTPRequest challenges u))
               = ''Resource not found. Url is '' @ u @ '' but expected any of'' @ [CHR 0x0A]
                 @ concat (map (\<lambda>ch. url ch @ [CHR 0x0A]) challenges)
             \<and> (\<forall>ch \<in> set challenges.
                   sublist (url ch @ [CHR 0x0A]) (body (snd (handleHTTPRequest challenges u)))))"
    using miss by (rule impI)
  from ret A B C show ?thesis by (intro conjI)
qed

theorem C4_handleHTTPRequest_witness:
  "snd (handleHTTPRequest challenges0 ''/.well-known/acme-challenge/tokenB'')
     = \<lparr>status = 200, body = ''authB'', contentType = Some ''application/octet-stream''\<rparr>
   \<and> status (snd (handleHTTPRequest challenges0 ''/.well-known/acme-challenge/tokenC'')) = 404
   \<and> sublist (''/.well-known/acme-challenge/tokenA'' @ [CHR 0x0A])
        (body (snd (handleHTTPRequest challenges0 ''/.well-known/acme-challenge/tokenC'')))
   \<and> sublist (''/.well-known/acme-challenge/tokenB'' @ [CHR 0x0A])
        (body (snd (handleHTTPRequest challenges0 ''/.well-known/acme-challenge/tokenC'')))"
proof -
  let ?A = "\<lparr>url = ''/.well-known/acme-challenge/tokenA'', content = ''authA''\<rparr>"
  let ?B = "\<lparr>url = ''/.well-known/acme-challenge/tokenB'', content = ''authB''\<rparr>"
  have s: "set challenges0 = {?A, ?B}" "map url challenges0 = [url ?A, url ?B]"
    by (simp_all add: challenges0_def)
  have b: "''/.well-known/acme-challenge/tokenB'' \<in> url ` set challenges0
      \<and> distinct (map url challenges0)"
    unfolding s by simp
  have c: "''/.well-known/acme-challenge/tokenC'' \<notin> url ` set challenges0"
    unfolding s by simp
  have z: "CHR 0x00 \<notin> set ''/.well-known/acme-challenge/tokenC''
      \<and> (\<forall>ch \<in> set challenges0. CHR 0x00 \<notin> set (url ch))"
    unfolding s by simp
  have hitB: "snd (handleHTTPRequest challenges0 ''/.well-known/acme-challenge/tokenB'')
     = \<lparr>status = 200, body = content ?B, contentType = Some ''application/octet-stream''\<rparr>"
    using C4_handleHTTPRequest [of challenges0 "''/.well-known/acme-challenge/tokenB''"] b
    unfolding s by simp
  have miss: "status (snd (handleHTTPRequest challenges0 ''/.well-known/acme-challenge/tokenC'')) = 404
      \<and> (\<forall>ch \<in> set challenges0. sublist (url ch @ [CHR 0x0A])
            (body (snd (handleHTTPRequest challenges0 ''/.well-known/acme-challenge/tokenC''))))"
    using C4_handleHTTPRequest [of challenges0 "''/.well-known/acme-challenge/tokenC''"] c z
    by blast
  from hitB miss show ?thesis unfolding s by simp
qed

subsection \<open>The domains of the order\<close>

lemma generateCertificate_trace:
  "\<exists>evs. trace (generateCertificate e certPaths w) = trace w @ evs
     \<and> (\<forall>accountKey directoryUrl domains paths.
           AcmeInit accountKey directoryUrl domains paths \<in> set evs \<longrightarrow>
             domains = map (toAce e) (certificate_domains (settings e))
           \<and> directoryUrl = directory_endpoint (settings e) \<and> paths = certPaths)"
  by (auto simp: generateCertificate_def createAccountKey_def writeData_def setPermissions_def
      openWriteOnly_def emit_def Let_def split: option.splits if_splits)

text \<open>
  C10. Whenever \<^verbatim>\<open>generateCertificate\<close> starts the ACME library, the domains it hands
  over are the configured names, each converted by \<^verbatim>\<open>QUrl::toAce\<close>, in their order.
  When the library then reports a challenge for one of the domains of that order, the
  URL recorded for the self-check is \<open>http://\<close>, the converted name and the location,
  and the challenge is published under the location.
\<close>

theorem C10_ace_domains:
  "(\<exists>evs. trace (generateCertificate e certPaths w) = trace w @ evs
      \<and> (\<forall>accountKey directoryUrl domains paths.
            AcmeInit accountKey directoryUrl domains paths \<in> set evs \<longrightarrow>
              domains = map (toAce e) (certificate_domains (settings e))))
   \<and> (domain \<in> set (map (toAce e) (certificate_domains (settings e)))
        \<and> gotChallenge domain location keyAuth w' = Some w'' \<longrightarrow>
        (\<exists>name \<in> set (certificate_domains (settings e)).
           selfCheckUrls w'' = selfCheckUrls w' @ [''http://'' @ toAce e name @ location])
        \<and> (\<exists>challenges. challengeHandler w' = Some challenges
              \<and> challengeHandler w''
                  = Some (challenges @ [\<lparr>url = location, content = keyAuth\<rparr>])))"
proof -
  have order: "\<exists>evs. trace (generateCertificate e certPaths w) = trace w @ evs
      \<and> (\<forall>accountKey directoryUrl domains paths.
            AcmeInit accountKey directoryUrl domains paths \<in> set evs \<longrightarrow>
              domains = map (toAce e) (certificate_domains (settings e)))"
    using generateCertificate_trace [of e certPaths w] by blast
  have urls: "(\<exists>name \<in> set (certificate_domains (settings e)).
           selfCheckUrls w'' = selfCheckUrls w' @ [''http://'' @ toAce e name @ location])
        \<and> (\<exists>challenges. challengeHandler w' = Some challenges
              \<and> challengeHandler w''
                  = Some (challenges @ [\<lparr>url = location, content = keyAuth\<rparr>]))"
    if "domain \<in> set (map (toAce e) (certificate_domains (settings e)))
        \<and> gotChallenge domain location keyAuth w' = Some w''"
  proof -
    from that obtain name where n: "name \<in> set (certificate_domains (settings e))"
      "domain = toAce e name"
      by auto
    from that obtain challenges where c: "challengeHandler w' = Some challenges"
      and w'': "w'' = w'\<lparr>challengeHandler := Some (addChallenge domain location keyAuth challenges),
                  selfCheckUrls := selfCheckUrls w' @ [''http://'' @ domain @ location]\<rparr>"
      by (auto simp: gotChallenge_def split: option.splits)
    have "selfCheckUrls w'' = selfCheckUrls w' @ [''http://'' @ toAce e name @ location]"
      unfolding w'' n(2) by simp
    moreover have "challengeHandler w''
        = Some (challenges @ [\<lparr>url = location, content = keyAuth\<rparr>])"
      unfolding w'' by (simp add: addChallenge_def)
    ultimately show ?thesis using n(1) c by blast
  qed
  from order urls show ?thesis by blast
qed

theorem C10_ace_domains_witness:
  "trace (generateCertificate env_punycode (''d/c'', ''d/k'') (world0 fs_both))
     = [AcmeInit ''ACCOUNT'' ''https://ca.test/dir'' [''xn--example.test''] (''d/c'', ''d/k'')]
   \<and> gotChallenge ''xn--example.test'' ''/.well-known/acme-challenge/tokenA'' ''authA''
        (accountCreated (world0 fs_both))
       = Some ((world0 fs_both)
           \<lparr>challengeHandler :=
              Some [\<lparr>url = ''/.well-known/acme-challenge/tokenA'', content = ''authA''\<rparr>],
            selfCheckUrls := [''http://xn--example.test/.well-known/acme-challenge/tokenA'']\<rparr>)"
proof -
  have t: "trace (generateCertificate env_punycode (''d/c'', ''d/k'') (world0 fs_both))
     = [AcmeInit ''ACCOUNT'' ''https://ca.test/dir'' [''xn--example.test''] (''d/c'', ''d/k'')]"
    by (simp add: generateCertificate_def exists_def emit_def Let_def env_punycode_def env0_def
        settings0_def world0_def fs_both_def pem_def)
  have g: "gotChallenge ''xn--example.test'' ''/.well-known/acme-challenge/tokenA'' ''authA''
        (accountCreated (world0 fs_both))
       = Some ((world0 fs_both)
           \<lparr>challengeHandler :=
              Some [\<lparr>url = ''/.well-known/acme-challenge/tokenA'', content = ''authA''\<rparr>],
            selfCheckUrls := [''http://xn--example.test/.well-known/acme-challenge/tokenA'']\<rparr>)"
    by (simp add: gotChallenge_def accountCreated_def addChallenge_def world0_def)
  have d: "''xn--example.test''
      \<in> set (map (toAce env_punycode) (certificate_domains (settings env_punycode)))"
    by (simp add: env_punycode_def env0_def settings0_def)
  from C10_ace_domains [of env_punycode "(''d/c'', ''d/k'')" "world0 fs_both"
      "''xn--example.test''" "''/.well-known/acme-challenge/tokenA''" "''authA''"
      "accountCreated (world0 fs_both)" "the (gotChallenge ''xn--example.test''
         ''/.well-known/acme-challenge/tokenA'' ''authA'' (accountCreated (world0 fs_both)))"]
    t g d
  show ?thesis by simp
qed

subsection \<open>The self-check joins its requests\<close>

lemma shares_ok_challengeSelfCheck: "shares_ok (challengeSelfCheck us)"
  by (simp add: shares_ok_def challengeSelfCheck_def)

lemma shares_ok_step:
  assumes "shares_ok s" and "step ev s = Some s'"
  shows "shares_ok s'"
proof (cases ev)
  case Launch
  with assms show ?thesis
    by (auto simp: shares_ok_def waitForGet_def split: list.splits if_splits)
next
  case (Resolved u ok)
  with assms have u: "u \<in> set (checks s)" and s': "s' = resolve u ok s"
    by (auto split: if_splits)
  from u have "length (remove1 u (checks s)) = length (checks s) - 1"
    by (simp add: length_remove1)
  moreover from u have "0 < length (checks s)"
    by (cases "checks s") simp_all
  ultimately have "Suc (length (remove1 u (checks s))) = length (checks s)"
    by simp
  with assms(1) show ?thesis
    unfolding s' by (auto simp: shares_ok_def resolve_def release_def split: if_splits)
next
  case EndOfStatement
  with assms show ?thesis
    by (auto simp: shares_ok_def destroy_owner_def release_def split: if_splits)
qed

lemma shares_ok_run:
  "shares_ok s \<Longrightarrow> run evs s = Some s' \<Longrightarrow> shares_ok s'"
proof (induction evs arbitrary: s)
  case Nil
  then show ?case by simp
next
  case (Cons ev evs)
  then show ?case
    by (auto split: option.splits dest: shares_ok_step)
qed

lemma release_fields [simp]:
  "checks (release s) = checks s" "urls (release s) = urls s" "owner (release s) = owner s"
  "warnings (release s) = warnings s"
  by (simp_all add: release_def)

lemma step_account:
  assumes "step ev s = Some s'"
  shows "mset (resolved [ev]) + mset (checks s') + mset (urls s')
       = mset (checks s) + mset (urls s)"
proof (cases ev)
  case Launch
  with assms show ?thesis
    by (auto simp: waitForGet_def split: list.splits if_splits)
next
  case (Resolved u ok)
  with assms show ?thesis
    by (auto simp: resolve_def split: if_splits)
next
  case EndOfStatement
  with assms show ?thesis
    by (auto simp: destroy_owner_def split: if_splits)
qed

lemma resolved_Cons: "mset (resolved (ev # evs)) = mset (resolved [ev]) + mset (resolved evs)"
  by (cases ev) simp_all

lemma run_account:
  "run evs s = Some s' \<Longrightarrow>
     mset (resolved evs) + mset (checks s') + mset (urls s') = mset (checks s) + mset (urls s)"
proof (induction evs arbitrary: s)
  case Nil
  then show ?case by simp
next
  case (Cons ev evs)
  from Cons.prems obtain s1 where 1: "step ev s = Some s1" and 2: "run evs s1 = Some s'"
    by (auto split: option.splits)
  have "mset (resolved (ev # evs)) + mset (checks s') + mset (urls s')
      = mset (resolved [ev]) + (mset (resolved evs) + mset (checks s') + mset (urls s'))"
    by (simp add: resolved_Cons [of ev evs] ac_simps)
  also have "\<dots> = mset (resolved [ev]) + (mset (checks s1) + mset (urls s1))"
    using Cons.IH [OF 2] by simp
  also have "\<dots> = mset (checks s) + mset (urls s)"
    using step_account [OF 1] by (simp add: ac_simps)
  finally show ?case .
qed

lemma step_warnings:
  assumes "step ev s = Some s'"
  shows "warnings s' = warnings s @ failed [ev]"
proof (cases ev)
  case Launch
  with assms show ?thesis
    by (auto simp: waitForGet_def split: list.splits if_splits)
next
  case (Resolved u ok)
  with assms show ?thesis
    by (auto simp: resolve_def split: if_splits)
next
  case EndOfStatement
  with assms show ?thesis
    by (auto simp: destroy_owner_def split: if_splits)
qed

lemma failed_Cons: "failed (ev # evs) = failed [ev] @ failed evs"
  by (cases ev) simp_all

lemma run_warnings:
  "run evs s = Some s' \<Longrightarrow> warnings s' = warnings s @ failed evs"
proof (induction evs arbitrary: s)
  case Nil
  then show ?case by simp
next
  case (Cons ev evs)
  from Cons.prems obtain s1 where 1: "step ev s = Some s1" and 2: "run evs s1 = Some s'"
    by (auto split: option.splits)
  from Cons.IH [OF 2] step_warnings [OF 1] show ?case
    by (simp add: failed_Cons [of ev evs])
qed

lemma step_owner: "step ev s = Some s' \<Longrightarrow> owner s' \<Longrightarrow> owner s"
  by (cases ev)
    (auto simp: waitForGet_def resolve_def destroy_owner_def split: list.splits if_splits)

lemma run_owner: "run evs s = Some s' \<Longrightarrow> owner s' \<Longrightarrow> owner s"
proof (induction evs arbitrary: s)
  case Nil
  then show ?case by simp
next
  case (Cons ev evs)
  from Cons.prems(1) obtain s1 where 1: "step ev s = Some s1" and 2: "run evs s1 = Some s'"
    by (auto split: option.splits)
  from Cons.IH [OF 2 Cons.prems(2)] have "owner s1" .
  with 1 show ?case by (rule step_owner)
qed

lemma run_append:
  "run (evs @ evs') s = (case run evs s of None \<Rightarrow> None | Some s' \<Rightarrow> run evs' s')"
  by (induction evs arbitrary: s) (auto split: option.splits)

lemma start_loop_fields:
  "owner (start_loop us s) = owner s" "urls (start_loop us s) = urls s"
  "checks (start_loop us s) = checks s @ us" "called (start_loop us s) = called s"
  "use_count (start_loop us s) = use_count s + length us"
  by (induction us arbitrary: s) (simp_all add: waitForGet_def)

lemma run_launches:
  "owner s \<Longrightarrow> urls s = us \<Longrightarrow>
     run (replicate (length us) Launch) s = Some (start_loop us (s\<lparr>urls := []\<rparr>))"
proof (induction us arbitrary: s)
  case Nil
  then show ?case by simp
next
  case (Cons u us)
  let ?s1 = "waitForGet u (s\<lparr>urls := us\<rparr>)"
  have "owner ?s1" "urls ?s1 = us" using Cons.prems by (simp_all add: waitForGet_def)
  from Cons.IH [OF this]
  have "run (replicate (length us) Launch) ?s1 = Some (start_loop us (?s1\<lparr>urls := []\<rparr>))" .
  moreover have "?s1\<lparr>urls := []\<rparr> = waitForGet u (s\<lparr>urls := []\<rparr>)"
    by (simp add: waitForGet_def)
  ultimately show ?case using Cons.prems by simp
qed

text \<open>The statement of \<^verbatim>\<open>OrderCallback\<close> as events: every URL is handed over, then the
  pointer is destroyed.\<close>

lemma run_statement:
  "run (replicate (length us) Launch @ [EndOfStatement]) (challengeSelfCheck us)
     = Some (destroy_owner (start (challengeSelfCheck us)))"
proof -
  have "run (replicate (length us) Launch) (challengeSelfCheck us)
      = Some (start (challengeSelfCheck us))"
    using run_launches [of "challengeSelfCheck us" us]
    by (simp add: start_def challengeSelfCheck_def)
  moreover have "owner (start (challengeSelfCheck us))" "urls (start (challengeSelfCheck us)) = []"
    by (simp_all add: start_def start_loop_fields challengeSelfCheck_def)
  ultimately show ?thesis by (simp add: run_append)
qed

lemma run_resolutions:
  "mset (map fst rs) \<subseteq># mset (checks s) \<Longrightarrow>
     \<exists>s'. run (resolutions rs) s = Some s'
        \<and> mset (checks s') = mset (checks s) - mset (map fst rs)"
proof (induction rs arbitrary: s)
  case Nil
  then show ?case by (simp add: resolutions_def)
next
  case (Cons r rs)
  obtain u ok where r: "r = (u, ok)" by (cases r)
  from Cons.prems have u: "u \<in># mset (checks s)"
    and rest: "mset (map fst rs) \<subseteq># mset (checks s) - {#u#}"
    unfolding r by (simp_all add: insert_subset_eq_iff)
  let ?s1 = "resolve u ok s"
  have c1: "mset (checks ?s1) = mset (checks s) - {#u#}"
    by (simp add: resolve_def)
  with rest have "mset (map fst rs) \<subseteq># mset (checks ?s1)" by simp
  from Cons.IH [OF this] obtain s' where s': "run (resolutions rs) ?s1 = Some s'"
    "mset (checks s') = mset (checks ?s1) - mset (map fst rs)"
    by blast
  have "run (resolutions (r # rs)) s = Some s'"
    using u s'(1) unfolding r by (simp add: resolutions_def)
  moreover have "mset (checks s') = mset (checks s) - mset (map fst (r # rs))"
    unfolding s'(2) c1 r by simp
  ultimately show ?case by blast
qed

text \<open>
  C3. Take any sequence of events on the self-check of the URLs \<open>us\<close>: requests
  started one after the other, resolved in any order, each with a response or with an
  error, some perhaps while \<^verbatim>\<open>start\<close> is still running. After it, the callback has
  run at most once; it has run exactly when the pointer of the statement is gone and no
  request is in flight, and then the resolved requests are exactly \<open>us\<close>; every URL is
  resolved, in flight or not yet started, so an error of one request takes no other
  request away; the warnings are those of the requests that failed. And the callback
  does run: after the statement, resolving the requests in any order with any outcomes
  is a sequence of events that can happen, and it ends with the callback run once.
\<close>

theorem C3_self_check_join:
  "(run evs (challengeSelfCheck us) = Some s \<longrightarrow>
       called s \<le> 1
     \<and> (called s = 1 \<longleftrightarrow> \<not> owner s \<and> checks s = [])
     \<and> (called s = 1 \<longrightarrow> mset (resolved evs) = mset us)
     \<and> mset (resolved evs) + mset (checks s) + mset (urls s) = mset us
     \<and> warnings s = failed evs)
   \<and> (mset (map fst rs) = mset us \<longrightarrow>
       (\<exists>s'. run (replicate (length us) Launch @ [EndOfStatement] @ resolutions rs)
                (challengeSelfCheck us) = Some s'
          \<and> called s' = 1 \<and> warnings s' = map fst (filter (\<lambda>r. \<not> snd r) rs)))"
proof -
  have safety: "called s \<le> 1
     \<and> (called s = 1 \<longleftrightarrow> \<not> owner s \<and> checks s = [])
     \<and> (called s = 1 \<longrightarrow> mset (resolved evs) = mset us)
     \<and> mset (resolved evs) + mset (checks s) + mset (urls s) = mset us
     \<and> warnings s = failed evs"
    if r: "run evs (challengeSelfCheck us) = Some s" for evs s
  proof -
    from shares_ok_run [OF shares_ok_challengeSelfCheck r] have ok: "shares_ok s" .
    from run_account [OF r]
    have acc: "mset (resolved evs) + mset (checks s) + mset (urls s) = mset us"
      by (simp add: challengeSelfCheck_def)
    from run_warnings [OF r] have w: "warnings s = failed evs"
      by (simp add: challengeSelfCheck_def)
    from ok have c1: "called s \<le> 1" and c2: "called s = 1 \<longleftrightarrow> \<not> owner s \<and> checks s = []"
      by (auto simp: shares_ok_def split: if_splits)
    have c3: "mset (resolved evs) = mset us" if "called s = 1"
    proof -
      from that c2 have "\<not> owner s" "checks s = []" by simp_all
      moreover from this ok have "urls s = []" by (simp add: shares_ok_def)
      ultimately show ?thesis using acc by simp
    qed
    from c1 c2 c3 acc w show ?thesis by blast
  qed
  have liveness: "\<exists>s'. run (replicate (length us) Launch @ [EndOfStatement] @ resolutions rs)
                (challengeSelfCheck us) = Some s'
          \<and> called s' = 1 \<and> warnings s' = map fst (filter (\<lambda>r. \<not> snd r) rs)"
    if m: "mset (map fst rs) = mset us"
  proof -
    let ?s0 = "destroy_owner (start (challengeSelfCheck us))"
    have c0: "checks ?s0 = us" "\<not> owner ?s0"
      by (simp_all add: destroy_owner_def start_def start_loop_fields challengeSelfCheck_def)
    with m have "mset (map fst rs) \<subseteq># mset (checks ?s0)" by simp
    from run_resolutions [OF this] obtain s' where s': "run (resolutions rs) ?s0 = Some s'"
      "mset (checks s') = mset (checks ?s0) - mset (map fst rs)"
      by blast
    have whole: "run (replicate (length us) Launch @ [EndOfStatement] @ resolutions rs)
        (challengeSelfCheck us) = Some s'"
    proof -
      have "run ((replicate (length us) Launch @ [EndOfStatement]) @ resolutions rs)
          (challengeSelfCheck us) = run (resolutions rs) ?s0"
        by (simp only: run_append [of "replicate (length us) Launch @ [EndOfStatement]"]
            run_statement option.case)
      then show ?thesis using s'(1) by (simp only: append_assoc)
    qed
    from s'(2) c0(1) m have e: "checks s' = []" by simp
    from safety [OF whole] have "called s' = 1 \<longleftrightarrow> \<not> owner s' \<and> checks s' = []"
      and acc: "mset (resolved (replicate (length us) Launch @ [EndOfStatement] @ resolutions rs))
          + mset (checks s') + mset (urls s') = mset us"
      and w: "warnings s' = failed (replicate (length us) Launch @ [EndOfStatement] @ resolutions rs)"
      by blast+
    have "failed (replicate n Launch @ evs) = failed evs" for n evs
      by (induction n) simp_all
    moreover have "failed (resolutions rs) = map fst (filter (\<lambda>r. \<not> snd r) rs)"
      by (induction rs) (auto simp: resolutions_def)
    ultimately have w': "warnings s' = map fst (filter (\<lambda>r. \<not> snd r) rs)"
      using w by simp
    have "resolved (replicate n Launch @ evs) = resolved evs" for n evs
      by (induction n) simp_all
    moreover have "resolved (resolutions rs) = map fst rs"
      by (induction rs) (auto simp: resolutions_def)
    ultimately have "urls s' = []" using acc e m by simp
    from shares_ok_run [OF shares_ok_challengeSelfCheck whole] e \<open>urls s' = []\<close>
    have "called s' = 1 \<or> owner s'"
      by (auto simp: shares_ok_def split: if_splits)
    moreover have "\<not> owner s'"
      using run_owner [OF s'(1)] c0(2) by blast
    ultimately show ?thesis using whole w' by blast
  qed
  from safety liveness show ?thesis by blast
qed

theorem C3_self_check_join_witness:
  "run events0 (challengeSelfCheck urls0)
     = Some \<lparr>urls = [], use_count = 0, owner = False, checks = [], called = 1,
             warnings = [''http://b.test/y'']\<rparr>
   \<and> run (butlast events0) (challengeSelfCheck urls0)
     = Some \<lparr>urls = [], use_count = 1, owner = False, checks = [''http://a.test/x''],
             called = 0, warnings = [''http://b.test/y'']\<rparr>
   \<and> resolved events0 = [''http://b.test/y'', ''http://a.test/x'']"
proof -
  let ?s = "\<lparr>urls = [], use_count = 0, owner = False, checks = [], called = 1,
             warnings = [''http://b.test/y'']\<rparr>"
  have r: "run events0 (challengeSelfCheck urls0) = Some ?s"
    by (simp add: events0_def urls0_def challengeSelfCheck_def waitForGet_def destroy_owner_def
        resolve_def release_def)
  have p: "run (butlast events0) (challengeSelfCheck urls0)
     = Some \<lparr>urls = [], use_count = 1, owner = False, checks = [''http://a.test/x''],
             called = 0, warnings = [''http://b.test/y'']\<rparr>"
    by (simp add: events0_def urls0_def challengeSelfCheck_def waitForGet_def destroy_owner_def
        resolve_def release_def)
  have m: "mset (map fst [(''http://b.test/y'', False), (''http://a.test/x'', True)])
      = mset urls0"
    by (simp add: urls0_def)
  have e: "resolved events0 = [''http://b.test/y'', ''http://a.test/x'']"
    by (simp add: events0_def)
  from C3_self_check_join [of events0 urls0 ?s
      "[(''http://b.test/y'', False), (''http://a.test/x'', True)]"] r p m e
  show ?thesis by simp
qed

subsection \<open>No URL to check\<close>

lemma step_none_when_done:
  assumes "\<not> owner s" and "checks s = []" and "urls s = []"
  shows "step ev s = None"
  using assms by (cases ev) simp_all

text \<open>
  C9. When no self-check URL was recorded, the self-check that \<^verbatim>\<open>OrderCallback\<close>
  makes has run its callback once when the statement is over: the object is made,
  \<^verbatim>\<open>start\<close> hands over nothing, and the end of the statement releases the only share.
  No event can happen to the object afterwards, so the callback does not run again. The
  recorded URLs are cleared. When there are URLs, the callback has not yet run at the
  end of the statement.
\<close>

theorem C9_no_urls:
  "(selfCheckUrls w = [] \<longrightarrow>
       called (fst (OrderCallback w)) = 1
     \<and> use_count (fst (OrderCallback w)) = 0
     \<and> run [EndOfStatement] (challengeSelfCheck []) = Some (fst (OrderCallback w))
     \<and> (\<forall>ev. step ev (fst (OrderCallback w)) = None))
   \<and> (selfCheckUrls w \<noteq> [] \<longrightarrow> called (fst (OrderCallback w)) = 0)
   \<and> run (replicate (length (selfCheckUrls w)) Launch @ [EndOfStatement])
        (challengeSelfCheck (selfCheckUrls w)) = Some (fst (OrderCallback w))
   \<and> selfCheckUrls (snd (OrderCallback w)) = []"
proof -
  let ?s = "fst (OrderCallback w)"
  have s: "?s = destroy_owner (start (challengeSelfCheck (selfCheckUrls w)))"
    by (simp add: OrderCallback_def)
  have stmt: "run (replicate (length (selfCheckUrls w)) Launch @ [EndOfStatement])
        (challengeSelfCheck (selfCheckUrls w)) = Some ?s"
    unfolding s by (rule run_statement)
  have f: "\<not> owner ?s" "urls ?s = []" "checks ?s = selfCheckUrls w"
    unfolding s
    by (simp_all add: destroy_owner_def start_def start_loop_fields challengeSelfCheck_def)
  from shares_ok_run [OF shares_ok_challengeSelfCheck stmt] have ok: "shares_ok ?s" .
  have empty: "called ?s = 1 \<and> use_count ?s = 0
     \<and> run [EndOfStatement] (challengeSelfCheck []) = Some ?s
     \<and> (\<forall>ev. step ev ?s = None)"
    if e: "selfCheckUrls w = []"
  proof -
    from ok f e have "called ?s = 1" "use_count ?s = 0"
      by (simp_all add: shares_ok_def)
    moreover from stmt e have "run [EndOfStatement] (challengeSelfCheck []) = Some ?s"
      by simp
    moreover from f e have "step ev ?s = None" for ev
      by (intro step_none_when_done) simp_all
    ultimately show ?thesis by blast
  qed
  have nonempty: "called ?s = 0" if "selfCheckUrls w \<noteq> []"
    using ok f that by (simp add: shares_ok_def)
  have cleared: "selfCheckUrls (snd (OrderCallback w)) = []"
    by (simp add: OrderCallback_def)
  from empty nonempty stmt cleared show ?thesis by blast
qed

theorem C9_no_urls_witness:
  "fst (OrderCallback (accountCreated (world0 fs_both)))
     = \<lparr>urls = [], use_count = 0, owner = False, checks = [], called = 1, warnings = []\<rparr>
   \<and> called (fst (OrderCallback ((world0 fs_both)\<lparr>selfCheckUrls := urls0\<rparr>))) = 0"
proof -
  have e: "selfCheckUrls (accountCreated (world0 fs_both)) = []"
    by (simp add: accountCreated_def world0_def)
  have n: "selfCheckUrls ((world0 fs_both)\<lparr>selfCheckUrls := urls0\<rparr>) \<noteq> []"
    by (simp add: urls0_def)
  have v: "fst (OrderCallback (accountCreated (world0 fs_both)))
     = \<lparr>urls = [], use_count = 0, owner = False, checks = [], called = 1, warnings = []\<rparr>"
    by (simp add: OrderCallback_def e start_def destroy_owner_def release_def
        challengeSelfCheck_def)
  from C9_no_urls [of "accountCreated (world0 fs_both)"]
    C9_no_urls [of "(world0 fs_both)\<lparr>selfCheckUrls := urls0\<rparr>"] e n v
  show ?thesis by simp
qed

end
